theory Spec2Isabelle
  imports Main "HOL-Library.Multiset"
begin

section \<open>Runtime values used by the store\<close>

text \<open>
  A \<open>Date\<close> is represented by what \<open>getTime()\<close> returns for it: the number of
  milliseconds since the epoch. Every \<open>new Date()\<close> of the source is a clock reading
  that the model takes as the argument \<open>now\<close>.
\<close>

type_synonym date = int

text \<open>
  The \<open>read\<close> column is \<open>boolean("read").default(false)\<close>: in an insert draft the
  property may be left out (\<open>Undefined\<close>), be \<open>null\<close> or be a boolean. \<open>truthy\<close> is
  JavaScript's conversion to boolean, as applied by \<open>!message.read\<close>.
\<close>

datatype jsflag = Undefined | Null | Flag bool

fun truthy :: "jsflag \<Rightarrow> bool" where
  "truthy Undefined = False"
| "truthy Null = False"
| "truthy (Flag b) = b"

text \<open>
  A string is the list of the bytes of its UTF-8 text, as a string literal of the logic
  is; two strings are equal exactly when their byte lists are.
  \<open>String.prototype.toLowerCase\<close> belongs to the runtime, with Unicode's case mapping
  behind it. The operations that call it take it as their first argument, named
  \<open>toLowerCase\<close>, and nothing is assumed of it but what a theorem states.
\<close>

text \<open>
  A \<open>Map<number, V>\<close> keeps its entries in insertion order; \<open>set\<close> on a key that is
  present replaces the value where it stands, \<open>set\<close> on a new key appends the entry.
\<close>

type_synonym 'v jsmap = "(int \<times> 'v) list"

fun Map_get :: "'v jsmap \<Rightarrow> int \<Rightarrow> 'v option" where
  "Map_get [] k = None"
| "Map_get ((k', v) # es) k = (if k' = k then Some v else Map_get es k)"

fun Map_set :: "int \<Rightarrow> 'v \<Rightarrow> 'v jsmap \<Rightarrow> 'v jsmap" where
  "Map_set k v [] = [(k, v)]"
| "Map_set k v ((k', v') # es) = (if k' = k then (k, v) # es else (k', v') # Map_set k v es)"

definition Map_values :: "'v jsmap \<Rightarrow> 'v list" where
  "Map_values m = map snd m"

text \<open>
  \<open>Array.prototype.sort(compare)\<close> is a stable sort: \<open>a\<close> stays before \<open>b\<close> unless
  \<open>compare(a, b) > 0\<close>. It is modelled by a stable insertion sort driven by the comparator.
\<close>

fun sortInsert :: "('a \<Rightarrow> 'a \<Rightarrow> int) \<Rightarrow> 'a \<Rightarrow> 'a list \<Rightarrow> 'a list" where
  "sortInsert cmp x [] = [x]"
| "sortInsert cmp x (y # ys) =
     (if cmp x y \<le> 0 then x # y # ys else y # sortInsert cmp x ys)"

fun Array_sort :: "('a \<Rightarrow> 'a \<Rightarrow> int) \<Rightarrow> 'a list \<Rightarrow> 'a list" where
  "Array_sort cmp [] = []"
| "Array_sort cmp (x # xs) = sortInsert cmp x (Array_sort cmp xs)"

text \<open>A \<open>Set<number>\<close> iterates in insertion order; \<open>add\<close> ignores a member.\<close>

definition Set_add :: "int \<Rightarrow> int list \<Rightarrow> int list" where
  "Set_add x xs = (if x \<in> set xs then xs else xs @ [x])"

section \<open>Entities (shared/schema.ts)\<close>

record User =
  u_id :: int
  u_username :: string
  u_password :: string
  u_realName :: string
  u_fakeName :: string
  u_age :: int
  u_school :: string
  u_classInfo :: string
  u_avatarType :: string
  u_avatarId :: string
  u_lastActive :: date

record InsertUser =
  iu_username :: string
  iu_password :: string
  iu_realName :: string
  iu_fakeName :: string
  iu_age :: int
  iu_school :: string
  iu_classInfo :: string
  iu_avatarType :: string
  iu_avatarId :: string

record Message =
  m_id :: int
  m_senderId :: int
  m_receiverId :: int
  m_content :: string
  m_timestamp :: date
  m_read :: jsflag

record InsertMessage =
  im_senderId :: int
  im_receiverId :: int
  im_content :: string
  im_read :: jsflag

record Guess =
  g_id :: int
  g_guesserId :: int
  g_targetId :: int
  g_guessedName :: string
  g_correct :: bool
  g_timestamp :: date

record InsertGuess =
  ig_guesserId :: int
  ig_targetId :: int
  ig_guessedName :: string
  ig_correct :: bool

record Conversation =
  c_userId :: int
  c_fakeName :: string
  c_avatarType :: string
  c_avatarId :: string
  c_lastMessage :: "string option"
  c_lastMessageTime :: "date option"
  c_unreadCount :: nat

section \<open>MemStorage\<close>

record MemStorage =
  users :: "User jsmap"
  messages :: "Message jsmap"
  guesses :: "Guess jsmap"
  userCurrentId :: int
  messageCurrentId :: int
  guessCurrentId :: int

definition newMemStorage :: MemStorage where
  "newMemStorage =
     \<lparr>users = [], messages = [], guesses = [],
      userCurrentId = 1, messageCurrentId = 1, guessCurrentId = 1\<rparr>"

subsection \<open>User operations\<close>

definition getUser :: "MemStorage \<Rightarrow> int \<Rightarrow> User option" where
  "getUser st i = Map_get (users st) i"

definition getUserByRealName ::
  "(string \<Rightarrow> string) \<Rightarrow> MemStorage \<Rightarrow> string \<Rightarrow> User option" where
  "getUserByRealName toLowerCase st realName =
     find (\<lambda>user. toLowerCase (u_realName user) = toLowerCase realName) (Map_values (users st))"

definition getUserByUsername ::
  "(string \<Rightarrow> string) \<Rightarrow> MemStorage \<Rightarrow> string \<Rightarrow> User option" where
  "getUserByUsername toLowerCase st username =
     find (\<lambda>user. toLowerCase (u_username user) = toLowerCase username) (Map_values (users st))"

definition createUser :: "MemStorage \<Rightarrow> date \<Rightarrow> InsertUser \<Rightarrow> User \<times> MemStorage" where
  "createUser st now insertUser =
     (let i = userCurrentId st;
          user = \<lparr>u_id = i, u_username = iu_username insertUser,
                  u_password = iu_password insertUser, u_realName = iu_realName insertUser,
                  u_fakeName = iu_fakeName insertUser, u_age = iu_age insertUser,
                  u_school = iu_school insertUser, u_classInfo = iu_classInfo insertUser,
                  u_avatarType = iu_avatarType insertUser, u_avatarId = iu_avatarId insertUser,
                  u_lastActive = now\<rparr>
      in (user, st\<lparr>userCurrentId := i + 1, users := Map_set i user (users st)\<rparr>))"

definition updateUserLastActive :: "MemStorage \<Rightarrow> date \<Rightarrow> int \<Rightarrow> MemStorage" where
  "updateUserLastActive st now i =
     (case getUser st i of
        None \<Rightarrow> st
      | Some user \<Rightarrow> st\<lparr>users := Map_set i (user\<lparr>u_lastActive := now\<rparr>) (users st)\<rparr>)"

definition getAllUsers :: "MemStorage \<Rightarrow> User list" where
  "getAllUsers st = Map_values (users st)"

subsection \<open>Message operations\<close>

definition createMessage :: "MemStorage \<Rightarrow> date \<Rightarrow> InsertMessage \<Rightarrow> Message \<times> MemStorage" where
  "createMessage st now insertMessage =
     (let i = messageCurrentId st;
          message = \<lparr>m_id = i, m_senderId = im_senderId insertMessage,
                     m_receiverId = im_receiverId insertMessage,
                     m_content = im_content insertMessage,
                     m_timestamp = now, m_read = im_read insertMessage\<rparr>
      in (message, st\<lparr>messageCurrentId := i + 1, messages := Map_set i message (messages st)\<rparr>))"

definition between :: "int \<Rightarrow> int \<Rightarrow> Message \<Rightarrow> bool" where
  "between userId1 userId2 message \<longleftrightarrow>
     (m_senderId message = userId1 \<and> m_receiverId message = userId2) \<or>
     (m_senderId message = userId2 \<and> m_receiverId message = userId1)"

definition getMessagesBetweenUsers :: "MemStorage \<Rightarrow> int \<Rightarrow> int \<Rightarrow> Message list" where
  "getMessagesBetweenUsers st userId1 userId2 =
     Array_sort (\<lambda>a b. m_timestamp a - m_timestamp b)
       (filter (between userId1 userId2) (Map_values (messages st)))"

definition getUnreadMessagesCount :: "MemStorage \<Rightarrow> int \<Rightarrow> nat" where
  "getUnreadMessagesCount st userId =
     length (filter (\<lambda>message. m_receiverId message = userId \<and> \<not> truthy (m_read message))
               (Map_values (messages st)))"

text \<open>
  The loop of \<open>markMessagesAsRead\<close> walks the entries and writes each marked message back
  under its own key with \<open>this.messages.set(id, message)\<close>.
\<close>

fun markLoop :: "int \<Rightarrow> int \<Rightarrow> (int \<times> Message) list \<Rightarrow> Message jsmap \<Rightarrow> Message jsmap" where
  "markLoop senderId receiverId [] ms = ms"
| "markLoop senderId receiverId ((i, message) # es) ms =
     (if m_senderId message = senderId \<and> m_receiverId message = receiverId
         \<and> \<not> truthy (m_read message)
      then markLoop senderId receiverId es (Map_set i (message\<lparr>m_read := Flag True\<rparr>) ms)
      else markLoop senderId receiverId es ms)"

definition markMessagesAsRead :: "MemStorage \<Rightarrow> int \<Rightarrow> int \<Rightarrow> MemStorage" where
  "markMessagesAsRead st senderId receiverId =
     st\<lparr>messages := markLoop senderId receiverId (messages st) (messages st)\<rparr>"

subsection \<open>Guess operations\<close>

definition createGuess :: "MemStorage \<Rightarrow> date \<Rightarrow> InsertGuess \<Rightarrow> Guess \<times> MemStorage" where
  "createGuess st now insertGuess =
     (let i = guessCurrentId st;
          guess = \<lparr>g_id = i, g_guesserId = ig_guesserId insertGuess,
                   g_targetId = ig_targetId insertGuess,
                   g_guessedName = ig_guessedName insertGuess,
                   g_correct = ig_correct insertGuess, g_timestamp = now\<rparr>
      in (guess, st\<lparr>guessCurrentId := i + 1, guesses := Map_set i guess (guesses st)\<rparr>))"

definition getGuessesForUser :: "MemStorage \<Rightarrow> int \<Rightarrow> Guess list" where
  "getGuessesForUser st userId =
     Array_sort (\<lambda>a b. g_timestamp b - g_timestamp a)
       (filter (\<lambda>guess. g_guesserId guess = userId \<or> g_targetId guess = userId)
          (Map_values (guesses st)))"

subsection \<open>Conversation operations\<close>

definition interactedUserIds :: "int \<Rightarrow> Message list \<Rightarrow> int list" where
  "interactedUserIds userId allMessages =
     fold (\<lambda>message ids.
             if m_senderId message = userId then Set_add (m_receiverId message) ids
             else if m_receiverId message = userId then Set_add (m_senderId message) ids
             else ids)
          allMessages []"

definition conversationWith :: "User \<Rightarrow> int \<Rightarrow> int \<Rightarrow> Message list \<Rightarrow> Conversation" where
  "conversationWith otherUser userId otherUserId allMessages =
     (let conversationMessages =
            Array_sort (\<lambda>a b. m_timestamp b - m_timestamp a)
              (filter (between userId otherUserId) allMessages);
          lastMessage = (case conversationMessages of [] \<Rightarrow> None | m # _ \<Rightarrow> Some m);
          unreadCount =
            length (filter (\<lambda>m. m_senderId m = otherUserId \<and> m_receiverId m = userId
                                 \<and> \<not> truthy (m_read m)) conversationMessages)
      in \<lparr>c_userId = u_id otherUser, c_fakeName = u_fakeName otherUser,
          c_avatarType = u_avatarType otherUser, c_avatarId = u_avatarId otherUser,
          c_lastMessage = map_option m_content lastMessage,
          c_lastMessageTime = map_option m_timestamp lastMessage,
          c_unreadCount = unreadCount\<rparr>)"

text \<open>
  \<open>getConversationsForUser\<close> is a method of the store object: its body reaches the store
  through \<open>this.messages.values()\<close> and, once per counterpart, through
  \<open>await this.getUser(otherUserId)\<close>. Each of these steps is a step on the store: it
  returns its value together with the store it leaves, and the body hands that store to
  the next step.
\<close>

definition this_messages_values :: "MemStorage \<Rightarrow> Message list \<times> MemStorage" where
  "this_messages_values st = (Map_values (messages st), st)"

definition this_getUser :: "int \<Rightarrow> MemStorage \<Rightarrow> User option \<times> MemStorage" where
  "this_getUser i st = (getUser st i, st)"

text \<open>The \<open>for ... of interactedUserIds\<close> loop, pushing onto \<open>conversations\<close>.\<close>

fun buildConversations ::
  "int \<Rightarrow> Message list \<Rightarrow> int list \<Rightarrow> Conversation list \<Rightarrow> MemStorage
     \<Rightarrow> Conversation list \<times> MemStorage" where
  "buildConversations userId allMessages [] conversations st = (conversations, st)"
| "buildConversations userId allMessages (otherUserId # rest) conversations st =
     (case this_getUser otherUserId st of
        (None, st') \<Rightarrow> buildConversations userId allMessages rest conversations st'
      | (Some otherUser, st') \<Rightarrow>
          buildConversations userId allMessages rest
            (conversations @ [conversationWith otherUser userId otherUserId allMessages]) st')"

text \<open>The comparator of the final sort ("Sort by most recent message").\<close>

definition byMostRecent :: "Conversation \<Rightarrow> Conversation \<Rightarrow> int" where
  "byMostRecent a b =
     (case (c_lastMessageTime a, c_lastMessageTime b) of
        (None, None) \<Rightarrow> 0
      | (None, Some tb) \<Rightarrow> 1
      | (Some ta, None) \<Rightarrow> - 1
      | (Some ta, Some tb) \<Rightarrow> tb - ta)"

definition getConversationsForUser ::
  "MemStorage \<Rightarrow> int \<Rightarrow> Conversation list \<times> MemStorage" where
  "getConversationsForUser st userId =
     (case this_messages_values st of
        (allMessages, st1) \<Rightarrow>
          (case buildConversations userId allMessages
                  (interactedUserIds userId allMessages) [] st1 of
             (conversations, st2) \<Rightarrow> (Array_sort byMostRecent conversations, st2)))"

subsection \<open>The storage interface as a state transformer\<close>

text \<open>
  Each method of \<open>IStorage\<close> takes the store and returns its result with the store it
  leaves behind.
\<close>

datatype call =
    GetUser int
  | GetUserByRealName string
  | GetUserByUsername string
  | CreateUser InsertUser
  | UpdateUserLastActive int
  | GetAllUsers
  | CreateMessage InsertMessage
  | GetMessagesBetweenUsers int int
  | GetUnreadMessagesCount int
  | MarkMessagesAsRead int int
  | CreateGuess InsertGuess
  | GetGuessesForUser int
  | GetConversationsForUser int

datatype result =
    UserOrUndefined "User option"
  | OneUser User
  | Users "User list"
  | OneMessage Message
  | Messages "Message list"
  | Count nat
  | OneGuess Guess
  | Guesses "Guess list"
  | Conversations "Conversation list"
  | Void

fun invoke ::
  "(string \<Rightarrow> string) \<Rightarrow> date \<Rightarrow> call \<Rightarrow> MemStorage \<Rightarrow> result \<times> MemStorage" where
  "invoke toLowerCase now (GetUser i) st = (UserOrUndefined (getUser st i), st)"
| "invoke toLowerCase now (GetUserByRealName n) st =
     (UserOrUndefined (getUserByRealName toLowerCase st n), st)"
| "invoke toLowerCase now (GetUserByUsername n) st =
     (UserOrUndefined (getUserByUsername toLowerCase st n), st)"
| "invoke toLowerCase now (CreateUser d) st =
     (case createUser st now d of (u, st') \<Rightarrow> (OneUser u, st'))"
| "invoke toLowerCase now (UpdateUserLastActive i) st = (Void, updateUserLastActive st now i)"
| "invoke toLowerCase now GetAllUsers st = (Users (getAllUsers st), st)"
| "invoke toLowerCase now (CreateMessage d) st =
     (case createMessage st now d of (m, st') \<Rightarrow> (OneMessage m, st'))"
| "invoke toLowerCase now (GetMessagesBetweenUsers a b) st =
     (Messages (getMessagesBetweenUsers st a b), st)"
| "invoke toLowerCase now (GetUnreadMessagesCount i) st =
     (Count (getUnreadMessagesCount st i), st)"
| "invoke toLowerCase now (MarkMessagesAsRead s r) st = (Void, markMessagesAsRead st s r)"
| "invoke toLowerCase now (CreateGuess d) st =
     (case createGuess st now d of (g, st') \<Rightarrow> (OneGuess g, st'))"
| "invoke toLowerCase now (GetGuessesForUser i) st = (Guesses (getGuessesForUser st i), st)"
| "invoke toLowerCase now (GetConversationsForUser i) st =
     (case getConversationsForUser st i of (cs, st') \<Rightarrow> (Conversations cs, st'))"

text \<open>The stores that a sequence of calls can produce from a new \<open>MemStorage\<close>.\<close>

inductive reachable :: "MemStorage \<Rightarrow> bool" where
  reachable_new: "reachable newMemStorage"
| reachable_invoke: "reachable st \<Longrightarrow> reachable (snd (invoke toLowerCase now c st))"

text \<open>
  What every reachable store satisfies: the keys of each \<open>Map\<close> are distinct, each entity
  is stored under its own id, and the ids handed out so far are below the counter.
\<close>

definition keyed :: "('v \<Rightarrow> int) \<Rightarrow> int \<Rightarrow> 'v jsmap \<Rightarrow> bool" where
  "keyed ident next m \<longleftrightarrow>
     distinct (map fst m) \<and> list_all (\<lambda>(k, v). ident v = k \<and> k < next) m"

definition wf_store :: "MemStorage \<Rightarrow> bool" where
  "wf_store st \<longleftrightarrow>
     keyed u_id (userCurrentId st) (users st) \<and>
     keyed m_id (messageCurrentId st) (messages st) \<and>
     keyed g_id (guessCurrentId st) (guesses st)"

section \<open>POST /api/guess (server/routes.ts)\<close>

text \<open>
  \<open>rq_user\<close> is the id of \<open>req.user\<close> when \<open>req.isAuthenticated()\<close> holds. The body
  fields are the ones \<open>insertGuessSchema\<close> requires besides \<open>guesserId\<close>; \<open>None\<close> is a
  field that is missing or not of the column's type, for which \<open>parse\<close> throws a
  \<open>ZodError\<close>.
\<close>

record GuessRequest =
  rq_user :: "int option"
  rq_targetId :: "int option"
  rq_guessedName :: "string option"
  rq_correct :: "bool option"

text \<open>
  A reply is a status with a JSON body: an error message, or the stored guess with
  \<open>targetRealName\<close>. A property whose value is \<open>undefined\<close> is left out of the JSON text,
  so \<open>None\<close> is a body without \<open>targetRealName\<close>.
\<close>

datatype reply =
    ErrorReply nat string
  | GuessReply nat Guess "string option"

definition parseInsertGuess :: "GuessRequest \<Rightarrow> int \<Rightarrow> InsertGuess option" where
  "parseInsertGuess req guesserId =
     (case (rq_targetId req, rq_guessedName req, rq_correct req) of
        (Some targetId, Some guessedName, Some correct) \<Rightarrow>
          Some \<lparr>ig_guesserId = guesserId, ig_targetId = targetId,
                ig_guessedName = guessedName, ig_correct = correct\<rparr>
      | _ \<Rightarrow> None)"

definition postGuess ::
  "(string \<Rightarrow> string) \<Rightarrow> MemStorage \<Rightarrow> date \<Rightarrow> GuessRequest \<Rightarrow> reply \<times> MemStorage" where
  "postGuess toLowerCase st now req =
     (case rq_user req of
        None \<Rightarrow> (ErrorReply 401 ''Unauthorized'', st)
      | Some guesserId \<Rightarrow>
          (case parseInsertGuess req guesserId of
             None \<Rightarrow> (ErrorReply 400 ''Invalid data'', st)
           | Some parsed \<Rightarrow>
               (case getUser st (ig_targetId parsed) of
                  None \<Rightarrow> (ErrorReply 404 ''Target user not found'', st)
                | Some targetUser \<Rightarrow>
                    (let correct =
                           (toLowerCase (u_realName targetUser)
                              = toLowerCase (ig_guessedName parsed));
                         (guess, st') =
                           createGuess st now
                             \<lparr>ig_guesserId = guesserId, ig_targetId = ig_targetId parsed,
                              ig_guessedName = ig_guessedName parsed, ig_correct = correct\<rparr>
                     in (GuessReply 201 guess
                           (if correct then Some (u_realName targetUser) else None), st')))))"

section \<open>Case-insensitive equality, as the specification words it\<close>

text \<open>
  For names written in ASCII (every byte below 128) the comparison can be worded without
  the runtime. Two characters are the same letter when they are equal or are the
  upper-case and the lower-case form of one of the letters \<open>A\<close> to \<open>Z\<close>; two names are
  equal without regard to case when they have the same length and agree letter by letter.
\<close>

definition isAscii :: "string \<Rightarrow> bool" where
  "isAscii s \<longleftrightarrow> list_all (\<lambda>c. (of_char c :: nat) < 128) s"

definition isUpper :: "char \<Rightarrow> bool" where
  "isUpper c \<longleftrightarrow> 65 \<le> (of_char c :: nat) \<and> (of_char c :: nat) \<le> 90"

definition sameLetter :: "char \<Rightarrow> char \<Rightarrow> bool" where
  "sameLetter c d \<longleftrightarrow>
     c = d \<or> (isUpper c \<and> (of_char d :: nat) = of_char c + 32)
           \<or> (isUpper d \<and> (of_char c :: nat) = of_char d + 32)"

definition equalIgnoringCase :: "string \<Rightarrow> string \<Rightarrow> bool" where
  "equalIgnoringCase s t \<longleftrightarrow> list_all2 sameLetter s t"

text \<open>
  What \<open>toLowerCase\<close> returns for a string in ASCII: the letters \<open>A\<close> to \<open>Z\<close> (codes
  65 to 90) become \<open>a\<close> to \<open>z\<close>, the other ASCII characters stay. It says nothing of
  other strings; it is the instance of \<open>toLowerCase\<close> used on the ASCII examples.
\<close>

definition asciiLowerChar :: "char \<Rightarrow> char" where
  "asciiLowerChar c =
     (let n = (of_char c :: nat) in if 65 \<le> n \<and> n \<le> 90 then char_of (n + 32) else c)"

definition asciiLowerCase :: "string \<Rightarrow> string" where
  "asciiLowerCase s = map asciiLowerChar s"

section \<open>Auxiliary definitions for the proofs\<close>

text \<open>What one pass of the \<open>markMessagesAsRead\<close> loop does to a single message.\<close>

definition markOne :: "int \<Rightarrow> int \<Rightarrow> Message \<Rightarrow> Message" where
  "markOne s r m =
     (if m_senderId m = s \<and> m_receiverId m = r \<and> \<not> truthy (m_read m)
      then m\<lparr>m_read := Flag True\<rparr> else m)"

text \<open>
  The order of the conversation list: \<open>a\<close> may stand before \<open>b\<close> when \<open>b\<close> has no
  \<open>lastMessageTime\<close>, or both have one and that of \<open>a\<close> is not the earlier.
\<close>

definition recentFirst :: "Conversation \<Rightarrow> Conversation \<Rightarrow> bool" where
  "recentFirst a b \<longleftrightarrow>
     (case c_lastMessageTime b of
        None \<Rightarrow> True
      | Some tb \<Rightarrow> (case c_lastMessageTime a of None \<Rightarrow> False | Some ta \<Rightarrow> tb \<le> ta))"

text \<open>
  A store with three users (1 with real name "Jane Doe", 2 and 3) and three messages:
  3 to 1 at \<open>t1\<close>, 1 to 2 at \<open>t2\<close>, 2 to 1 at \<open>t3\<close>.
\<close>

definition demoUser :: "string \<Rightarrow> string \<Rightarrow> InsertUser" where
  "demoUser realName fakeName =
     \<lparr>iu_username = fakeName, iu_password = ''secret'', iu_realName = realName,
      iu_fakeName = fakeName, iu_age = 15, iu_school = ''MIL'', iu_classInfo = ''3A'',
      iu_avatarType = ''animal'', iu_avatarId = ''fox''\<rparr>"

definition demoStore :: "date \<Rightarrow> date \<Rightarrow> date \<Rightarrow> MemStorage" where
  "demoStore t1 t2 t3 =
     (let s1 = snd (createUser newMemStorage 0 (demoUser ''Jane Doe'' ''Owl''));
          s2 = snd (createUser s1 0 (demoUser ''Ann Lee'' ''Fox''));
          s3 = snd (createUser s2 0 (demoUser ''Bob Ray'' ''Elf''));
          s4 = snd (createMessage s3 t1
                 \<lparr>im_senderId = 3, im_receiverId = 1, im_content = ''hi'', im_read = Flag False\<rparr>);
          s5 = snd (createMessage s4 t2
                 \<lparr>im_senderId = 1, im_receiverId = 2, im_content = ''hello'', im_read = Flag False\<rparr>)
      in snd (createMessage s5 t3
                 \<lparr>im_senderId = 2, im_receiverId = 1, im_content = ''hey'', im_read = Flag False\<rparr>))"

text \<open>User 2 guessing the real name of user 1.\<close>

definition demoGuess :: "string \<Rightarrow> GuessRequest" where
  "demoGuess name =
     \<lparr>rq_user = Some 2, rq_targetId = Some 1, rq_guessedName = Some name,
      rq_correct = Some False\<rparr>"

text \<open>
  The example store after one more message, 3 to 1 at 40: counterpart 3 then has both the
  oldest and the newest message.
\<close>

definition demoStoreLater :: MemStorage where
  "demoStoreLater =
     snd (createMessage (demoStore 10 20 30) 40
       \<lparr>im_senderId = 3, im_receiverId = 1, im_content = ''again'', im_read = Flag False\<rparr>)"

text \<open>A conversation entry with a given counterpart and \<open>lastMessageTime\<close>.\<close>

definition demoConversation :: "int \<Rightarrow> date option \<Rightarrow> Conversation" where
  "demoConversation k t =
     \<lparr>c_userId = k, c_fakeName = ''Fox'', c_avatarType = ''animal'', c_avatarId = ''fox'',
      c_lastMessage = map_option (\<lambda>_. ''hi'') t, c_lastMessageTime = t, c_unreadCount = 0\<rparr>"

section \<open>Facts about the runtime model\<close>

subsection \<open>Map\<close>

lemma Map_get_None_iff: "Map_get m k = None \<longleftrightarrow> k \<notin> fst ` set m"
  by (induction m) force+

lemma Map_get_set_same: "Map_get (Map_set k v m) k = Some v"
  by (induction m) auto

lemma Map_get_set_other: "j \<noteq> k \<Longrightarrow> Map_get (Map_set k v m) j = Map_get m j"
  by (induction m) auto

lemma keys_Map_set_present: "k \<in> fst ` set m \<Longrightarrow> map fst (Map_set k v m) = map fst m"
  by (induction m) force+

lemma Map_set_fresh: "k \<notin> fst ` set m \<Longrightarrow> Map_set k v m = m @ [(k, v)]"
  by (induction m) auto

lemma Map_set_middle:
  "k \<notin> fst ` set ps \<Longrightarrow> Map_set k v (ps @ (k, v') # es) = ps @ (k, v) # es"
  by (induction ps) auto

lemma list_all_Map_set: "list_all P m \<Longrightarrow> P (k, v) \<Longrightarrow> list_all P (Map_set k v m)"
  by (induction m) auto

subsection \<open>Array.sort\<close>

lemma mset_sortInsert: "mset (sortInsert cmp x xs) = add_mset x (mset xs)"
  by (induction xs) auto

lemma mset_Array_sort: "mset (Array_sort cmp xs) = mset xs"
  by (induction xs) (auto simp: mset_sortInsert)

lemma set_sortInsert: "set (sortInsert cmp x xs) = insert x (set xs)"
  by (induction xs) auto

lemma set_Array_sort: "set (Array_sort cmp xs) = set xs"
  by (induction xs) (auto simp: set_sortInsert)

text \<open>
  A comparator that decides a total preorder \<open>le\<close> (positive only when \<open>le b a\<close>, else
  \<open>le a b\<close>) makes the sort return a list ordered by \<open>le\<close>.
\<close>

lemma sorted_wrt_sortInsert:
  assumes gt: "\<And>a b. 0 < cmp a b \<Longrightarrow> le b a"
      and le: "\<And>a b. cmp a b \<le> 0 \<Longrightarrow> le a b"
      and tr: "\<And>a b c. le a b \<Longrightarrow> le b c \<Longrightarrow> le a c"
  shows "sorted_wrt le xs \<Longrightarrow> sorted_wrt le (sortInsert cmp x xs)"
proof (induction xs)
  case Nil
  then show ?case by simp
next
  case (Cons y ys)
  show ?case
  proof (cases "cmp x y \<le> 0")
    case True
    then have xy: "le x y" by (rule le)
    have "\<forall>z\<in>set ys. le x z"
      using Cons.prems xy tr by auto
    with xy Cons.prems True show ?thesis by simp
  next
    case False
    then have yx: "le y x" using gt [of x y] by simp
    have "sorted_wrt le (sortInsert cmp x ys)"
      using Cons by simp
    with yx Cons.prems False show ?thesis
      by (simp add: set_sortInsert)
  qed
qed

lemma sorted_wrt_Array_sort:
  assumes gt: "\<And>a b. 0 < cmp a b \<Longrightarrow> le b a"
      and le: "\<And>a b. cmp a b \<le> 0 \<Longrightarrow> le a b"
      and tr: "\<And>a b c. le a b \<Longrightarrow> le b c \<Longrightarrow> le a c"
  shows "sorted_wrt le (Array_sort cmp xs)"
proof (induction xs)
  case Nil
  then show ?case by simp
next
  case (Cons x xs)
  then show ?case
    using sorted_wrt_sortInsert [of cmp le, OF gt le tr] by simp
qed

subsection \<open>The example store\<close>

lemmas demo_defs = demoStore_def demoUser_def createUser_def createMessage_def newMemStorage_def
  Let_def

lemma demo_messages:
  "messages (demoStore t1 t2 t3) =
     [(1, \<lparr>m_id = 1, m_senderId = 3, m_receiverId = 1, m_content = ''hi'',
           m_timestamp = t1, m_read = Flag False\<rparr>),
      (2, \<lparr>m_id = 2, m_senderId = 1, m_receiverId = 2, m_content = ''hello'',
           m_timestamp = t2, m_read = Flag False\<rparr>),
      (3, \<lparr>m_id = 3, m_senderId = 2, m_receiverId = 1, m_content = ''hey'',
           m_timestamp = t3, m_read = Flag False\<rparr>)]"
  by (simp add: demo_defs)

lemma demo_user_keys: "map fst (users (demoStore t1 t2 t3)) = [1, 2, 3]"
  by (simp add: demo_defs)

lemma demo_users_get:
  "getUser (demoStore t1 t2 t3) 7 = None"
  "getUser (demoStore t1 t2 t3) 2 = Some \<lparr>u_id = 2, u_username = ''Fox'', u_password = ''secret'',
       u_realName = ''Ann Lee'', u_fakeName = ''Fox'', u_age = 15, u_school = ''MIL'',
       u_classInfo = ''3A'', u_avatarType = ''animal'', u_avatarId = ''fox'', u_lastActive = 0\<rparr>"
  "getUser (demoStore t1 t2 t3) 1 = Some \<lparr>u_id = 1, u_username = ''Owl'', u_password = ''secret'',
       u_realName = ''Jane Doe'', u_fakeName = ''Owl'', u_age = 15, u_school = ''MIL'',
       u_classInfo = ''3A'', u_avatarType = ''animal'', u_avatarId = ''fox'', u_lastActive = 0\<rparr>"
  by (simp_all add: demo_defs getUser_def)

section \<open>The message thread\<close>

text \<open>
  C6. For every pair of user ids \<open>a\<close> and \<open>b\<close>, \<open>getMessagesBetweenUsers(a, b)\<close> returns
  exactly the stored messages sent from \<open>a\<close> to \<open>b\<close> or from \<open>b\<close> to \<open>a\<close> (each as often
  as the store holds it), in ascending order of timestamp.
\<close>

theorem getMessagesBetweenUsers_both_directions_ascending:
  "mset (getMessagesBetweenUsers st a b) =
     filter_mset (\<lambda>m. (m_senderId m = a \<and> m_receiverId m = b)
                    \<or> (m_senderId m = b \<and> m_receiverId m = a))
       (mset (Map_values (messages st)))
   \<and> sorted (map m_timestamp (getMessagesBetweenUsers st a b))"
proof
  have "between a b = (\<lambda>m. (m_senderId m = a \<and> m_receiverId m = b)
                    \<or> (m_senderId m = b \<and> m_receiverId m = a))"
    by (simp add: between_def fun_eq_iff)
  then show "mset (getMessagesBetweenUsers st a b) =
     filter_mset (\<lambda>m. (m_senderId m = a \<and> m_receiverId m = b)
                    \<or> (m_senderId m = b \<and> m_receiverId m = a))
       (mset (Map_values (messages st)))"
    by (simp add: getMessagesBetweenUsers_def mset_Array_sort)
next
  have "sorted_wrt (\<lambda>x y. m_timestamp x \<le> m_timestamp y)
          (Array_sort (\<lambda>a b. m_timestamp a - m_timestamp b) xs)" for xs
    by (rule sorted_wrt_Array_sort) auto
  then show "sorted (map m_timestamp (getMessagesBetweenUsers st a b))"
    by (simp add: getMessagesBetweenUsers_def sorted_map)
qed

section \<open>Marking messages as read\<close>

text \<open>
  On a \<open>Map\<close> (each key once) the loop rewrites every entry where it stands.
\<close>

lemma markLoop_append:
  "distinct (map fst (ps @ es)) \<Longrightarrow>
   markLoop s r es (ps @ es) = ps @ map (\<lambda>(i, m). (i, markOne s r m)) es"
proof (induction es arbitrary: ps)
  case Nil
  then show ?case by simp
next
  case (Cons e es)
  obtain i m where e: "e = (i, m)" by (cases e)
  from Cons.prems e have fresh: "i \<notin> fst ` set ps" by auto
  have d: "distinct (map fst ((ps @ [(i, v)]) @ es))" for v
    using Cons.prems e by simp
  show ?case
  proof (cases "m_senderId m = s \<and> m_receiverId m = r \<and> \<not> truthy (m_read m)")
    case True
    then have mo: "markOne s r m = m\<lparr>m_read := Flag True\<rparr>" by (simp add: markOne_def)
    have "markLoop s r (e # es) (ps @ e # es)
        = markLoop s r es ((ps @ [(i, m\<lparr>m_read := Flag True\<rparr>)]) @ es)"
      using True e Map_set_middle [OF fresh] by simp
    also have "\<dots> = (ps @ [(i, m\<lparr>m_read := Flag True\<rparr>)]) @ map (\<lambda>(i, m). (i, markOne s r m)) es"
      by (rule Cons.IH [OF d])
    finally show ?thesis using e mo by simp
  next
    case False
    then have mo: "markOne s r m = m" by (auto simp: markOne_def)
    have "markLoop s r (e # es) (ps @ e # es) = markLoop s r es ((ps @ [(i, m)]) @ es)"
      using False e by auto
    also have "\<dots> = (ps @ [(i, m)]) @ map (\<lambda>(i, m). (i, markOne s r m)) es"
      by (rule Cons.IH [OF d])
    finally show ?thesis using e mo by simp
  qed
qed

lemma markLoop_map:
  "distinct (map fst ms) \<Longrightarrow> markLoop s r ms ms = map (\<lambda>(i, m). (i, markOne s r m)) ms"
  using markLoop_append [of "[]" ms s r] by simp

lemma markOne_idem: "markOne s r (markOne s r m) = markOne s r m"
  by (simp add: markOne_def)

lemma keys_map_markOne: "map fst (map (\<lambda>(i, m). (i, markOne s r m)) ms) = map fst ms"
  by (induction ms) auto

lemma values_map_markOne:
  "Map_values (map (\<lambda>(i, m). (i, markOne s r m)) ms) = map (markOne s r) (Map_values ms)"
  by (induction ms) (auto simp: Map_values_def)

lemma unread_count_markOne:
  "length (filter (\<lambda>m. m_receiverId m = r \<and> \<not> truthy (m_read m)) (map (markOne s r) xs))
   + length (filter (\<lambda>m. m_senderId m = s \<and> m_receiverId m = r \<and> \<not> truthy (m_read m)) xs)
   = length (filter (\<lambda>m. m_receiverId m = r \<and> \<not> truthy (m_read m)) xs)"
  by (induction xs) (auto simp: markOne_def)

text \<open>
  C4. \<open>markMessagesAsRead(s, r)\<close> is idempotent: on every store whose message \<open>Map\<close>
  holds each key once, a second call leaves the store as the first call left it, and so
  every unread count is the same after two calls as after one.
\<close>

theorem markMessagesAsRead_idempotent:
  "distinct (map fst (messages st)) \<Longrightarrow>
   markMessagesAsRead (markMessagesAsRead st s r) s r = markMessagesAsRead st s r
   \<and> (\<forall>u. getUnreadMessagesCount (markMessagesAsRead (markMessagesAsRead st s r) s r) u
           = getUnreadMessagesCount (markMessagesAsRead st s r) u)"
proof -
  assume keys: "distinct (map fst (messages st))"
  let ?f = "\<lambda>(i, m). (i, markOne s r m)"
  have 1: "messages (markMessagesAsRead st s r) = map ?f (messages st)"
    using keys by (simp add: markMessagesAsRead_def markLoop_map)
  have 2: "distinct (map fst (map ?f (messages st)))"
    using keys by (simp only: keys_map_markOne)
  have 3: "map ?f (map ?f (messages st)) = map ?f (messages st)"
    by (induction "messages st") (auto simp: markOne_idem)
  have a: "markMessagesAsRead (markMessagesAsRead st s r) s r = markMessagesAsRead st s r"
    using 1 2 3 by (simp add: markMessagesAsRead_def markLoop_map)
  then show ?thesis by simp
qed

theorem markMessagesAsRead_idempotent_witness:
  "distinct (map fst (messages (demoStore 10 20 30)))
   \<and> markMessagesAsRead (markMessagesAsRead (demoStore 10 20 30) 3 1) 3 1
       = markMessagesAsRead (demoStore 10 20 30) 3 1
   \<and> getUnreadMessagesCount (markMessagesAsRead (demoStore 10 20 30) 3 1) 1 = 1"
proof -
  have h: "distinct (map fst (messages (demoStore 10 20 30)))"
    by (simp add: demo_messages)
  have c: "getUnreadMessagesCount (markMessagesAsRead (demoStore 10 20 30) 3 1) 1 = 1"
    by (simp add: getUnreadMessagesCount_def markMessagesAsRead_def demo_messages
        Map_values_def)
  show ?thesis
    using h c markMessagesAsRead_idempotent [OF h, of 3 1] by simp
qed

text \<open>
  C5. On every store whose message \<open>Map\<close> holds each key once: after
  \<open>markMessagesAsRead(s, r)\<close> the unread count of \<open>r\<close> is its previous value minus the
  number of messages from \<open>s\<close> to \<open>r\<close> that were unread before the call.
\<close>

theorem unread_count_after_markMessagesAsRead:
  "distinct (map fst (messages st)) \<Longrightarrow>
   int (getUnreadMessagesCount (markMessagesAsRead st s r) r)
     = int (getUnreadMessagesCount st r)
       - int (length (filter (\<lambda>m. m_senderId m = s \<and> m_receiverId m = r
                                    \<and> \<not> truthy (m_read m))
                        (Map_values (messages st))))"
proof -
  assume keys: "distinct (map fst (messages st))"
  have "messages (markMessagesAsRead st s r) = map (\<lambda>(i, m). (i, markOne s r m)) (messages st)"
    using keys by (simp add: markMessagesAsRead_def markLoop_map)
  then have "getUnreadMessagesCount (markMessagesAsRead st s r) r
      = length (filter (\<lambda>m. m_receiverId m = r \<and> \<not> truthy (m_read m))
                 (map (markOne s r) (Map_values (messages st))))"
    by (simp add: getUnreadMessagesCount_def values_map_markOne)
  then show ?thesis
    using unread_count_markOne [of r s "Map_values (messages st)"]
    by (simp add: getUnreadMessagesCount_def)
qed

theorem unread_count_after_markMessagesAsRead_witness:
  "distinct (map fst (messages (demoStore 10 20 30)))
   \<and> getUnreadMessagesCount (demoStore 10 20 30) 1 = 2
   \<and> int (getUnreadMessagesCount (markMessagesAsRead (demoStore 10 20 30) 3 1) 1) = 2 - 1"
proof -
  have h: "distinct (map fst (messages (demoStore 10 20 30)))"
    by (simp add: demo_messages)
  have c: "getUnreadMessagesCount (demoStore 10 20 30) 1 = 2"
    by (simp add: getUnreadMessagesCount_def demo_messages Map_values_def)
  show ?thesis
    using h c unread_count_after_markMessagesAsRead [OF h, of 3 1]
    by (simp add: demo_messages Map_values_def)
qed

section \<open>The steps of the conversation query\<close>

lemma set_Set_add: "set (Set_add x xs) = insert x (set xs)"
  by (auto simp: Set_add_def)

lemma distinct_Set_add: "distinct xs \<Longrightarrow> distinct (Set_add x xs)"
  by (simp add: Set_add_def)

text \<open>The set collected from the messages holds each counterpart of the user once.\<close>

lemma interacted_fold:
  "distinct acc \<Longrightarrow>
   distinct (fold (\<lambda>message ids.
               if m_senderId message = u then Set_add (m_receiverId message) ids
               else if m_receiverId message = u then Set_add (m_senderId message) ids
               else ids) ms acc)
   \<and> set (fold (\<lambda>message ids.
               if m_senderId message = u then Set_add (m_receiverId message) ids
               else if m_receiverId message = u then Set_add (m_senderId message) ids
               else ids) ms acc)
       = set acc \<union> {k. \<exists>m\<in>set ms. between u k m}"
proof (induction ms arbitrary: acc)
  case Nil
  then show ?case by simp
next
  case (Cons m ms)
  let ?acc' = "if m_senderId m = u then Set_add (m_receiverId m) acc
               else if m_receiverId m = u then Set_add (m_senderId m) acc else acc"
  have d: "distinct ?acc'" using Cons.prems by (simp add: distinct_Set_add)
  have s: "set ?acc' = set acc \<union> {k. between u k m}"
    by (auto simp: set_Set_add between_def)
  from Cons.IH [OF d] s show ?case by auto
qed

lemma interactedUserIds_counterparts:
  "distinct (interactedUserIds u ms)
   \<and> set (interactedUserIds u ms) = {k. \<exists>m\<in>set ms. between u k m}"
  using interacted_fold [of "[]" u ms] by (simp add: interactedUserIds_def)

text \<open>
  The loop returns one entry for each collected id that has a user record, in the order
  of the ids, and hands back the store it was given.
\<close>

lemma buildConversations_result:
  "buildConversations u all ids acc st =
     (acc @ map (\<lambda>k. conversationWith (the (getUser st k)) u k all)
              (filter (\<lambda>k. getUser st k \<noteq> None) ids), st)"
  by (induction ids arbitrary: acc) (auto simp: this_getUser_def)

lemma getConversationsForUser_result:
  "getConversationsForUser st u =
     (Array_sort byMostRecent
        (map (\<lambda>k. conversationWith (the (getUser st k)) u k (Map_values (messages st)))
           (filter (\<lambda>k. getUser st k \<noteq> None)
              (interactedUserIds u (Map_values (messages st))))), st)"
  by (simp add: getConversationsForUser_def this_messages_values_def buildConversations_result)

section \<open>The invariant of the store\<close>

lemma keyed_fresh: "keyed ident n m \<Longrightarrow> n \<notin> fst ` set m"
  by (force simp: keyed_def list_all_iff)

lemma keyed_value_less: "keyed ident n m \<Longrightarrow> v \<in> set (Map_values m) \<Longrightarrow> ident v < n"
  by (force simp: keyed_def list_all_iff Map_values_def)

lemma keyed_get: "keyed ident n m \<Longrightarrow> Map_get m k = Some v \<Longrightarrow> ident v = k"
  by (induction m) (auto simp: keyed_def split: if_splits)

lemma keyed_Map_set_new:
  assumes "keyed ident n m" and "ident v = n"
  shows "keyed ident (n + 1) (Map_set n v m)"
proof -
  have "list_all (\<lambda>(k, v). ident v = k \<and> k < n + 1) m"
    using assms(1) by (auto simp: keyed_def list_all_iff)
  with assms keyed_fresh [OF assms(1)] show ?thesis
    by (auto simp: Map_set_fresh keyed_def)
qed

lemma keyed_Map_set_present:
  assumes "keyed ident n m" and "Map_get m k = Some v'" and "ident v = k"
  shows "keyed ident n (Map_set k v m)"
proof -
  from assms(2) have mem: "k \<in> fst ` set m"
    using Map_get_None_iff [of m k] by simp
  then have keys: "map fst (Map_set k v m) = map fst m"
    by (rule keys_Map_set_present)
  from mem obtain w where "(k, w) \<in> set m" by auto
  with assms(1) have "k < n" by (auto simp: keyed_def list_all_iff)
  with assms have "list_all (\<lambda>(k, v). ident v = k \<and> k < n) (Map_set k v m)"
    by (intro list_all_Map_set) (simp_all add: keyed_def)
  with assms(1) keys show ?thesis by (simp add: keyed_def)
qed

lemma m_id_markOne: "m_id (markOne s r m) = m_id m"
  by (simp add: markOne_def)

lemma keyed_markLoop:
  assumes "keyed m_id n ms"
  shows "keyed m_id n (markLoop s r ms ms)"
proof -
  from assms have d: "distinct (map fst ms)" by (simp add: keyed_def)
  have "list_all (\<lambda>(k, v). m_id v = k \<and> k < n) (map (\<lambda>(i, m). (i, markOne s r m)) ms)"
    using assms by (auto simp: keyed_def list_all_iff m_id_markOne)
  moreover have "distinct (map fst (map (\<lambda>(i, m). (i, markOne s r m)) ms))"
    using d by (simp only: keys_map_markOne)
  ultimately show ?thesis
    unfolding markLoop_map [OF d] keyed_def by blast
qed

lemma wf_store_new: "wf_store newMemStorage"
  by (simp add: wf_store_def newMemStorage_def keyed_def)

lemma wf_store_invoke: "wf_store st \<Longrightarrow> wf_store (snd (invoke toLowerCase now c st))"
proof (cases c)
  case (CreateUser d)
  assume "wf_store st"
  then show ?thesis
    using CreateUser keyed_Map_set_new [of u_id "userCurrentId st" "users st"]
    by (simp add: wf_store_def createUser_def Let_def)
next
  case (UpdateUserLastActive i)
  assume wf: "wf_store st"
  show ?thesis
  proof (cases "getUser st i")
    case None
    with wf UpdateUserLastActive show ?thesis by (simp add: updateUserLastActive_def)
  next
    case (Some user)
    from wf have k: "keyed u_id (userCurrentId st) (users st)" by (simp add: wf_store_def)
    from Some have g: "Map_get (users st) i = Some user" by (simp add: getUser_def)
    have "u_id (user\<lparr>u_lastActive := now\<rparr>) = i"
      using keyed_get [OF k g] by simp
    from keyed_Map_set_present [OF k g this] wf Some UpdateUserLastActive
    show ?thesis by (simp add: wf_store_def updateUserLastActive_def)
  qed
next
  case (CreateMessage d)
  assume "wf_store st"
  then show ?thesis
    using CreateMessage keyed_Map_set_new [of m_id "messageCurrentId st" "messages st"]
    by (simp add: wf_store_def createMessage_def Let_def)
next
  case (MarkMessagesAsRead s r)
  assume "wf_store st"
  then show ?thesis
    using MarkMessagesAsRead keyed_markLoop [of "messageCurrentId st" "messages st" s r]
    by (simp add: wf_store_def markMessagesAsRead_def)
next
  case (CreateGuess d)
  assume "wf_store st"
  then show ?thesis
    using CreateGuess keyed_Map_set_new [of g_id "guessCurrentId st" "guesses st"]
    by (simp add: wf_store_def createGuess_def Let_def)
qed (simp_all add: getConversationsForUser_result)

lemma reachable_wf_store: "reachable st \<Longrightarrow> wf_store st"
  by (induction rule: reachable.induct) (simp_all add: wf_store_new wf_store_invoke)

lemma wf_store_distinct_messages: "wf_store st \<Longrightarrow> distinct (map fst (messages st))"
  by (simp add: wf_store_def keyed_def)

lemma demo_wf_store: "wf_store (demoStore t1 t2 t3)"
  by (simp add: wf_store_def keyed_def demo_defs)

section \<open>Creating a message\<close>

lemma length_filter_Array_sort: "length (filter P (Array_sort cmp xs)) = length (filter P xs)"
proof -
  have "mset (filter P (Array_sort cmp xs)) = mset (filter P xs)"
    by (simp add: mset_Array_sort)
  then show ?thesis by (metis size_mset)
qed

text \<open>
  On every well-formed store the message that \<open>createMessage\<close> returns occurs exactly
  once in the thread of its sender and receiver fetched next, no other message of the
  thread has its id, and a boolean \<open>read\<close> of the draft is the \<open>read\<close> of the message.
\<close>

lemma createMessage_then_thread_contains_it_once:
  assumes "wf_store st" and "createMessage st now d = (m, st')"
    and "im_senderId d = a" and "im_receiverId d = b"
  shows "count_list (getMessagesBetweenUsers st' a b) m = 1
       \<and> length (filter (\<lambda>x. m_id x = m_id m) (getMessagesBetweenUsers st' a b)) = 1
       \<and> (\<forall>r. im_read d = Flag r \<longrightarrow> m_read m = Flag r)"
proof -
  let ?i = "messageCurrentId st"
  from assms(1) have k: "keyed m_id ?i (messages st)" by (simp add: wf_store_def)
  from assms(2) have m: "m = \<lparr>m_id = ?i, m_senderId = a, m_receiverId = b,
      m_content = im_content d, m_timestamp = now, m_read = im_read d\<rparr>"
    and st': "messages st' = Map_set ?i m (messages st)"
    using assms(3-4) by (auto simp: createMessage_def Let_def)
  have vals: "Map_values (messages st') = Map_values (messages st) @ [m]"
    by (simp add: st' Map_set_fresh [OF keyed_fresh [OF k]] Map_values_def)
  have btw: "between a b m" by (simp add: m between_def)
  have old: "x \<in> set (Map_values (messages st)) \<Longrightarrow> m_id x \<noteq> m_id m" for x
    using keyed_value_less [OF k, of x] by (simp add: m)
  have none: "filter (\<lambda>x. m_id x = m_id m) (filter (between a b) (Map_values (messages st))) = []"
    using old by (auto simp: filter_empty_conv)
  have none': "filter ((=) m) (filter (between a b) (Map_values (messages st))) = []"
    using old by (auto simp: filter_empty_conv)
  have 1: "length (filter (\<lambda>x. m_id x = m_id m) (getMessagesBetweenUsers st' a b)) = 1"
    unfolding getMessagesBetweenUsers_def length_filter_Array_sort vals
    using btw none by simp
  have 2: "count_list (getMessagesBetweenUsers st' a b) m = 1"
    unfolding count_list_eq_length_filter getMessagesBetweenUsers_def length_filter_Array_sort vals
    using btw none' by simp
  from 1 2 show ?thesis by (simp add: m)
qed

text \<open>
  What \<open>createMessage\<close> does for every draft: the next id, the clock reading as
  timestamp, and the draft's own \<open>read\<close>, stored under the new id.
\<close>

lemma createMessage_fields:
  "createMessage st now d = (m, st') \<Longrightarrow>
     m_id m = messageCurrentId st \<and> messageCurrentId st' = messageCurrentId st + 1
   \<and> m_timestamp m = now \<and> m_read m = im_read d
   \<and> m_senderId m = im_senderId d \<and> m_receiverId m = im_receiverId d
   \<and> m_content m = im_content d \<and> Map_get (messages st') (messageCurrentId st) = Some m"
  by (auto simp: createMessage_def Let_def Map_get_set_same)

text \<open>
  C8. \<open>createMessage\<close> fills in no default for \<open>read\<close>: for a draft that leaves
  \<open>read\<close> out, the stored message has no \<open>read\<close> either (\<open>undefined\<close>, not \<open>false\<close>).
\<close>

theorem createMessage_omitted_read_stays_undefined:
  "m_read (fst (createMessage newMemStorage 5
      \<lparr>im_senderId = 1, im_receiverId = 2, im_content = ''hi'', im_read = Undefined\<rparr>))
     = Undefined
   \<and> Map_get (messages (snd (createMessage newMemStorage 5
      \<lparr>im_senderId = 1, im_receiverId = 2, im_content = ''hi'', im_read = Undefined\<rparr>))) 1
     = Some \<lparr>m_id = 1, m_senderId = 1, m_receiverId = 2, m_content = ''hi'', m_timestamp = 5,
         m_read = Undefined\<rparr>"
  by (simp add: createMessage_def newMemStorage_def Let_def)

text \<open>
  C7. Creating a message and fetching the thread at once: for the draft that leaves
  \<open>read\<close> out, the thread between sender and receiver holds the new message exactly
  once, but its \<open>read\<close> is \<open>undefined\<close>, not \<open>false\<close>.
\<close>

theorem createMessage_omitted_read_thread:
  "getMessagesBetweenUsers
     (snd (createMessage newMemStorage 5
        \<lparr>im_senderId = 1, im_receiverId = 2, im_content = ''hi'', im_read = Undefined\<rparr>)) 1 2
     = [\<lparr>m_id = 1, m_senderId = 1, m_receiverId = 2, m_content = ''hi'', m_timestamp = 5,
         m_read = Undefined\<rparr>]
   \<and> map m_read
        (getMessagesBetweenUsers
          (snd (createMessage newMemStorage 5
            \<lparr>im_senderId = 1, im_receiverId = 2, im_content = ''hi'', im_read = Undefined\<rparr>))
          1 2)
       \<noteq> [Flag False]"
  by (simp add: createMessage_def newMemStorage_def Let_def getMessagesBetweenUsers_def
      Map_values_def between_def)

section \<open>Absent users\<close>

text \<open>
  C9. The store operations return values and raise nothing: \<open>getUser\<close> of an id that is
  not a key of the user \<open>Map\<close> returns \<open>undefined\<close> (\<open>None\<close>);
  \<open>updateUserLastActive\<close> of an absent id returns the store as it was; for a present id
  it stores the same user with \<open>lastActive = now\<close> under the same key and changes nothing
  else: no other user, no key, no message, no guess, no counter.
\<close>

theorem getUser_absent_and_updateUserLastActive:
  "(getUser st i = None \<longleftrightarrow> i \<notin> fst ` set (users st))
   \<and> (getUser st i = None \<longrightarrow> updateUserLastActive st now i = st)
   \<and> (\<forall>user. getUser st i = Some user \<longrightarrow>
        getUser (updateUserLastActive st now i) i = Some (user\<lparr>u_lastActive := now\<rparr>)
        \<and> (\<forall>j. j \<noteq> i \<longrightarrow> getUser (updateUserLastActive st now i) j = getUser st j)
        \<and> map fst (users (updateUserLastActive st now i)) = map fst (users st)
        \<and> messages (updateUserLastActive st now i) = messages st
        \<and> guesses (updateUserLastActive st now i) = guesses st
        \<and> userCurrentId (updateUserLastActive st now i) = userCurrentId st
        \<and> messageCurrentId (updateUserLastActive st now i) = messageCurrentId st
        \<and> guessCurrentId (updateUserLastActive st now i) = guessCurrentId st)"
proof (intro conjI allI impI)
  show "getUser st i = None \<longleftrightarrow> i \<notin> fst ` set (users st)"
    by (simp add: getUser_def Map_get_None_iff)
next
  assume "getUser st i = None"
  then show "updateUserLastActive st now i = st"
    by (simp add: updateUserLastActive_def)
next
  fix user assume u: "getUser st i = Some user"
  then have upd: "updateUserLastActive st now i
      = st\<lparr>users := Map_set i (user\<lparr>u_lastActive := now\<rparr>) (users st)\<rparr>"
    by (simp add: updateUserLastActive_def)
  from u have "i \<in> fst ` set (users st)"
    using Map_get_None_iff [of "users st" i] by (simp add: getUser_def)
  then show "map fst (users (updateUserLastActive st now i)) = map fst (users st)"
    by (simp add: upd keys_Map_set_present)
  show "getUser (updateUserLastActive st now i) i = Some (user\<lparr>u_lastActive := now\<rparr>)"
    by (simp add: upd getUser_def Map_get_set_same)
  show "messages (updateUserLastActive st now i) = messages st" by (simp add: upd)
  show "guesses (updateUserLastActive st now i) = guesses st" by (simp add: upd)
  show "userCurrentId (updateUserLastActive st now i) = userCurrentId st" by (simp add: upd)
  show "messageCurrentId (updateUserLastActive st now i) = messageCurrentId st" by (simp add: upd)
  show "guessCurrentId (updateUserLastActive st now i) = guessCurrentId st" by (simp add: upd)
  fix j assume "j \<noteq> i"
  then show "getUser (updateUserLastActive st now i) j = getUser st j"
    by (simp add: upd getUser_def Map_get_set_other)
qed

theorem getUser_absent_and_updateUserLastActive_witness:
  "getUser (demoStore 10 20 30) 7 = None
   \<and> 7 \<notin> fst ` set (users (demoStore 10 20 30))
   \<and> updateUserLastActive (demoStore 10 20 30) 99 7 = demoStore 10 20 30
   \<and> map_option u_lastActive (getUser (demoStore 10 20 30) 2) = Some 0
   \<and> map_option u_lastActive (getUser (updateUserLastActive (demoStore 10 20 30) 99 2) 2) = Some 99
   \<and> map_option u_realName (getUser (updateUserLastActive (demoStore 10 20 30) 99 2) 2)
       = Some ''Ann Lee''
   \<and> getUser (updateUserLastActive (demoStore 10 20 30) 99 2) 1 = getUser (demoStore 10 20 30) 1
   \<and> messages (updateUserLastActive (demoStore 10 20 30) 99 2) = messages (demoStore 10 20 30)"
proof -
  have a: "getUser (demoStore 10 20 30) 7 = None" by (rule demo_users_get)
  note b = demo_users_get(2) [of 10 20 30]
  show ?thesis
    using a b getUser_absent_and_updateUserLastActive [of "demoStore 10 20 30" 7 99]
      getUser_absent_and_updateUserLastActive [of "demoStore 10 20 30" 2 99]
    by simp
qed

section \<open>The conversation list\<close>

lemma invoke_GetConversationsForUser:
  "invoke toLowerCase now (GetConversationsForUser u) st
     = (Conversations (fst (getConversationsForUser st u)), st)"
  by (simp add: getConversationsForUser_result)

text \<open>
  A method that writes does not hand back the store it was given: marking the message
  of user 3 to user 1 as read changes the example store.
\<close>

lemma markMessagesAsRead_writes:
  "snd (invoke toLowerCase now (MarkMessagesAsRead 3 1) (demoStore 10 20 30)) \<noteq> demoStore 10 20 30"
proof
  assume "snd (invoke toLowerCase now (MarkMessagesAsRead 3 1) (demoStore 10 20 30))
            = demoStore 10 20 30"
  then have "messages (markMessagesAsRead (demoStore 10 20 30) 3 1) = messages (demoStore 10 20 30)"
    by simp
  then show False
    by (simp add: markMessagesAsRead_def demo_messages)
qed


lemma byMostRecent_sorts: "sorted_wrt recentFirst (Array_sort byMostRecent xs)"
proof (rule sorted_wrt_Array_sort)
  fix a b :: Conversation
  show "0 < byMostRecent a b \<Longrightarrow> recentFirst b a"
    by (auto simp: byMostRecent_def recentFirst_def split: option.splits)
  show "byMostRecent a b \<le> 0 \<Longrightarrow> recentFirst a b"
    by (auto simp: byMostRecent_def recentFirst_def split: option.splits)
  fix c
  show "recentFirst a b \<Longrightarrow> recentFirst b c \<Longrightarrow> recentFirst a c"
    by (auto simp: recentFirst_def split: option.splits)
qed

text \<open>
  The first element of a thread sorted by descending timestamp is a latest message.
\<close>

lemma latest_first:
  assumes "xs \<noteq> []"
  shows "\<exists>m rest. Array_sort (\<lambda>a b. m_timestamp b - m_timestamp a) xs = m # rest
           \<and> m \<in> set xs \<and> (\<forall>m'\<in>set xs. m_timestamp m' \<le> m_timestamp m)"
proof -
  let ?ys = "Array_sort (\<lambda>a b. m_timestamp b - m_timestamp a) xs"
  have sorted: "sorted_wrt (\<lambda>x y. m_timestamp y \<le> m_timestamp x) ?ys"
    by (rule sorted_wrt_Array_sort) auto
  have set_eq: "set ?ys = set xs" by (rule set_Array_sort)
  with assms have "?ys \<noteq> []" by auto
  then obtain m rest where ys: "?ys = m # rest" by (cases ?ys) auto
  with set_eq have mem: "m \<in> set xs" by auto
  have "\<forall>m'\<in>set xs. m_timestamp m' \<le> m_timestamp m"
    using sorted set_eq unfolding ys by auto
  with ys mem show ?thesis by blast
qed

lemma conversationWith_latest:
  assumes "m0 \<in> set all" and "between u k m0"
  shows "\<exists>m\<in>set all. between u k m
           \<and> (\<forall>m'\<in>set all. between u k m' \<longrightarrow> m_timestamp m' \<le> m_timestamp m)
           \<and> c_lastMessageTime (conversationWith ou u k all) = Some (m_timestamp m)
           \<and> c_lastMessage (conversationWith ou u k all) = Some (m_content m)"
proof -
  from assms have "filter (between u k) all \<noteq> []"
    by (auto simp: filter_empty_conv)
  from latest_first [OF this] obtain m rest where
    ys: "Array_sort (\<lambda>a b. m_timestamp b - m_timestamp a) (filter (between u k) all) = m # rest"
    and mem: "m \<in> set (filter (between u k) all)"
    and top: "\<forall>m'\<in>set (filter (between u k) all). m_timestamp m' \<le> m_timestamp m"
    by blast
  have "c_lastMessageTime (conversationWith ou u k all) = Some (m_timestamp m)"
    and "c_lastMessage (conversationWith ou u k all) = Some (m_content m)"
    by (simp_all add: conversationWith_def ys)
  with mem top show ?thesis by auto
qed

lemma c_userId_conversationWith: "c_userId (conversationWith ou u k all) = u_id ou"
  by (simp add: conversationWith_def Let_def)

lemma demo_conversations:
  "t1 < t2 \<Longrightarrow> t2 < t3 \<Longrightarrow>
   map c_userId (fst (getConversationsForUser (demoStore t1 t2 t3) 1)) = [2, 3]"
  by (simp add: getConversationsForUser_result demo_defs Map_values_def interactedUserIds_def
      Set_add_def getUser_def conversationWith_def between_def byMostRecent_def)

text \<open>
  C3. For every store and user, the list returned by \<open>getConversationsForUser\<close> is in
  descending order of \<open>lastMessageTime\<close>, an entry without one after every entry that
  has one; the final sort orders any list of conversations so. On a well-formed store
  the list holds exactly one entry for each counterpart that has a user record, and the
  \<open>lastMessageTime\<close> and \<open>lastMessage\<close> of an entry are those of a latest message
  exchanged with that counterpart. In the example store, where counterpart 3 wrote at
  \<open>t1\<close> and counterpart 2 has the messages at \<open>t2\<close> and \<open>t3\<close> with \<open>t1 < t2 < t3\<close>,
  the list of user 1 is [2, 3].
\<close>

theorem getConversationsForUser_most_recent_first:
  "sorted_wrt recentFirst (fst (getConversationsForUser st u))
   \<and> (\<forall>xs. sorted_wrt recentFirst (Array_sort byMostRecent xs))
   \<and> (wf_store st \<longrightarrow>
         distinct (map c_userId (fst (getConversationsForUser st u)))
       \<and> set (map c_userId (fst (getConversationsForUser st u)))
           = {k. getUser st k \<noteq> None
                 \<and> (\<exists>m\<in>set (Map_values (messages st)). between u k m)}
       \<and> (\<forall>c\<in>set (fst (getConversationsForUser st u)).
             \<exists>m\<in>set (Map_values (messages st)).
               between u (c_userId c) m
             \<and> (\<forall>m'\<in>set (Map_values (messages st)).
                   between u (c_userId c) m' \<longrightarrow> m_timestamp m' \<le> m_timestamp m)
             \<and> c_lastMessageTime c = Some (m_timestamp m)
             \<and> c_lastMessage c = Some (m_content m)))
   \<and> (\<forall>t1 t2 t3. t1 < t2 \<and> t2 < t3 \<longrightarrow>
         map c_userId (fst (getConversationsForUser (demoStore t1 t2 t3) 1)) = [2, 3])"
proof (intro conjI impI allI ballI)
  show "sorted_wrt recentFirst (fst (getConversationsForUser st u))"
    by (simp add: getConversationsForUser_result byMostRecent_sorts)
next
  fix xs show "sorted_wrt recentFirst (Array_sort byMostRecent xs)"
    by (rule byMostRecent_sorts)
next
  fix t1 t2 t3 :: int assume "t1 < t2 \<and> t2 < t3"
  then show "map c_userId (fst (getConversationsForUser (demoStore t1 t2 t3) 1)) = [2, 3]"
    by (simp add: demo_conversations)
next
  let ?all = "Map_values (messages st)"
  let ?ids = "filter (\<lambda>k. getUser st k \<noteq> None) (interactedUserIds u ?all)"
  let ?conv = "\<lambda>k. conversationWith (the (getUser st k)) u k ?all"
  let ?res = "fst (getConversationsForUser st u)"
  assume wf: "wf_store st"
  have res: "?res = Array_sort byMostRecent (map ?conv ?ids)"
    by (simp add: getConversationsForUser_result)
  have key: "c_userId (?conv k) = k" if "k \<in> set ?ids" for k
  proof -
    from that obtain ou where ou: "getUser st k = Some ou" by auto
    from wf have "keyed u_id (userCurrentId st) (users st)" by (simp add: wf_store_def)
    from keyed_get [OF this] ou have "u_id ou = k" by (simp add: getUser_def)
    with ou show ?thesis by (simp add: c_userId_conversationWith)
  qed
  have ids: "map c_userId (map ?conv ?ids) = ?ids"
  proof -
    have "map (\<lambda>k. c_userId (?conv k)) ?ids = ?ids"
      by (rule map_idI) (rule key)
    then show ?thesis by (simp add: comp_def)
  qed
  have "mset (map c_userId ?res) = mset (map c_userId (map ?conv ?ids))"
    by (simp only: res mset_map mset_Array_sort)
  then have perm: "mset (map c_userId ?res) = mset ?ids"
    by (simp only: ids)
  have dids: "distinct ?ids"
    using interactedUserIds_counterparts [of u ?all] by simp
  from perm dids show "distinct (map c_userId ?res)"
    by (metis mset_eq_imp_distinct_iff)
  from perm have "set (map c_userId ?res) = set ?ids"
    by (rule mset_eq_setD)
  also have "\<dots> = {k. getUser st k \<noteq> None \<and> (\<exists>m\<in>set ?all. between u k m)}"
    using interactedUserIds_counterparts [of u ?all] by auto
  finally show "set (map c_userId ?res)
      = {k. getUser st k \<noteq> None \<and> (\<exists>m\<in>set ?all. between u k m)}" .
  fix c assume "c \<in> set ?res"
  then have "c \<in> set (map ?conv ?ids)" by (simp add: res set_Array_sort)
  then obtain k where k: "k \<in> set ?ids" and c: "c = ?conv k" by auto
  from k have "k \<in> set (interactedUserIds u ?all)" by simp
  then obtain m0 where m0: "m0 \<in> set ?all" "between u k m0"
    using interactedUserIds_counterparts [of u ?all] by auto
  from conversationWith_latest [OF m0, of "the (getUser st k)"] key [OF k] c
  show "\<exists>m\<in>set ?all.
               between u (c_userId c) m
             \<and> (\<forall>m'\<in>set ?all.
                   between u (c_userId c) m' \<longrightarrow> m_timestamp m' \<le> m_timestamp m)
             \<and> c_lastMessageTime c = Some (m_timestamp m)
             \<and> c_lastMessage c = Some (m_content m)"
    by simp
qed

lemma demoStoreLater_messages:
  "messages demoStoreLater = messages (demoStore 10 20 30) @
     [(4, \<lparr>m_id = 4, m_senderId = 3, m_receiverId = 1, m_content = ''again'',
           m_timestamp = 40, m_read = Flag False\<rparr>)]"
  by (simp add: demoStoreLater_def createMessage_def Let_def demo_messages)
     (simp add: demo_defs)

lemma demoStoreLater_wf: "wf_store demoStoreLater"
  using wf_store_invoke [OF demo_wf_store, of id 40
      "CreateMessage \<lparr>im_senderId = 3, im_receiverId = 1, im_content = ''again'',
                       im_read = Flag False\<rparr>" 10 20 30]
  by (simp add: demoStoreLater_def split_beta)

lemma demoStoreLater_conversations:
  "map (\<lambda>c. (c_userId c, c_lastMessageTime c)) (fst (getConversationsForUser demoStoreLater 1))
     = [(3, Some 40), (2, Some 30)]"
  by (simp add: getConversationsForUser_result demoStoreLater_def demo_defs Map_values_def
      interactedUserIds_def Set_add_def getUser_def conversationWith_def between_def
      byMostRecent_def)

theorem getConversationsForUser_most_recent_first_witness:
  "wf_store demoStoreLater
   \<and> map (\<lambda>c. (c_userId c, c_lastMessageTime c)) (fst (getConversationsForUser demoStoreLater 1))
       = [(3, Some 40), (2, Some 30)]
   \<and> sorted_wrt recentFirst (fst (getConversationsForUser demoStoreLater 1))
   \<and> distinct (map c_userId (fst (getConversationsForUser demoStoreLater 1)))
   \<and> Array_sort byMostRecent
        [demoConversation 7 None, demoConversation 8 (Some 5), demoConversation 9 (Some 9)]
       = [demoConversation 9 (Some 9), demoConversation 8 (Some 5), demoConversation 7 None]
   \<and> sorted_wrt recentFirst
        (Array_sort byMostRecent
          [demoConversation 7 None, demoConversation 8 (Some 5), demoConversation 9 (Some 9)])
   \<and> (10::int) < 20 \<and> (20::int) < 30
   \<and> map c_userId (fst (getConversationsForUser (demoStore 10 20 30) 1)) = [2, 3]"
proof -
  note t = getConversationsForUser_most_recent_first [of demoStoreLater 1]
  have w: "wf_store demoStoreLater" by (rule demoStoreLater_wf)
  have h: "(10::int) < 20 \<and> (20::int) < 30" by simp
  from t have 1: "sorted_wrt recentFirst (fst (getConversationsForUser demoStoreLater 1))"
    by blast
  from t w have 2: "distinct (map c_userId (fst (getConversationsForUser demoStoreLater 1)))"
    by blast
  from t have 3: "sorted_wrt recentFirst
        (Array_sort byMostRecent
          [demoConversation 7 None, demoConversation 8 (Some 5), demoConversation 9 (Some 9)])"
    by blast
  from t h have 4: "map c_userId (fst (getConversationsForUser (demoStore 10 20 30) 1)) = [2, 3]"
    by blast
  have 5: "Array_sort byMostRecent
        [demoConversation 7 None, demoConversation 8 (Some 5), demoConversation 9 (Some 9)]
       = [demoConversation 9 (Some 9), demoConversation 8 (Some 5), demoConversation 7 None]"
    by (simp add: byMostRecent_def demoConversation_def)
  from w 1 2 3 4 5 h demoStoreLater_conversations show ?thesis by simp
qed

section \<open>Guessing a real name\<close>

text \<open>
  On strings in ASCII, comparing the lower-cased names is the case-insensitive comparison
  of the specification.
\<close>

lemma of_char_asciiLowerChar:
  "(of_char (asciiLowerChar c) :: nat) =
     (if 65 \<le> (of_char c :: nat) \<and> (of_char c :: nat) \<le> 90 then of_char c + 32 else of_char c)"
  by (simp add: asciiLowerChar_def Let_def)

lemma lower_code_eq_iff:
  fixes n m :: nat
  shows "((if 65 \<le> n \<and> n \<le> 90 then n + 32 else n) = (if 65 \<le> m \<and> m \<le> 90 then m + 32 else m))
     \<longleftrightarrow> (n = m \<or> ((65 \<le> n \<and> n \<le> 90) \<and> m = n + 32) \<or> ((65 \<le> m \<and> m \<le> 90) \<and> n = m + 32))"
  by auto

lemma asciiLowerChar_eq_iff: "asciiLowerChar c = asciiLowerChar d \<longleftrightarrow> sameLetter c d"
proof -
  have "asciiLowerChar c = asciiLowerChar d
        \<longleftrightarrow> (of_char (asciiLowerChar c) :: nat) = of_char (asciiLowerChar d)"
    by simp
  also have "\<dots> \<longleftrightarrow> ((of_char c :: nat) = of_char d
      \<or> ((65 \<le> (of_char c :: nat) \<and> (of_char c :: nat) \<le> 90) \<and> (of_char d :: nat) = of_char c + 32)
      \<or> ((65 \<le> (of_char d :: nat) \<and> (of_char d :: nat) \<le> 90) \<and> (of_char c :: nat) = of_char d + 32))"
    unfolding of_char_asciiLowerChar by (rule lower_code_eq_iff)
  also have "\<dots> \<longleftrightarrow> sameLetter c d"
    by (simp add: sameLetter_def isUpper_def)
  finally show ?thesis .
qed

lemma map_eq_iff_list_all2:
  "map f xs = map f ys \<longleftrightarrow> list_all2 (\<lambda>x y. f x = f y) xs ys"
proof (induction xs arbitrary: ys)
  case Nil
  then show ?case by auto
next
  case (Cons x xs)
  then show ?case by (cases ys) auto
qed

lemma asciiLowerCase_eq_iff:
  "asciiLowerCase s = asciiLowerCase t \<longleftrightarrow> equalIgnoringCase s t"
  by (simp add: asciiLowerCase_def equalIgnoringCase_def map_eq_iff_list_all2
      asciiLowerChar_eq_iff)

lemma jane_doe_ascii:
  "isAscii ''Jane Doe''" "isAscii ''jane doe''" "isAscii ''Jane Doethe''"
  by (simp_all add: isAscii_def)

lemma jane_doe_examples:
  "equalIgnoringCase ''jane doe'' ''Jane Doe''"
  "\<not> equalIgnoringCase ''Jane Doethe'' ''Jane Doe''"
  by code_simp (simp add: equalIgnoringCase_def)

text \<open>The handler on an authenticated request with a valid body for an existing target.\<close>

lemma postGuess_found:
  assumes "rq_user req = Some guesserId" and "rq_targetId req = Some targetId"
    and "rq_guessedName req = Some guessedName" and "rq_correct req = Some c"
    and "getUser st targetId = Some targetUser"
  shows "postGuess toLowerCase st now req =
     (let correct = (toLowerCase (u_realName targetUser) = toLowerCase guessedName);
          guess = \<lparr>g_id = guessCurrentId st, g_guesserId = guesserId, g_targetId = targetId,
                   g_guessedName = guessedName, g_correct = correct, g_timestamp = now\<rparr>
      in (GuessReply 201 guess (if correct then Some (u_realName targetUser) else None),
          st\<lparr>guessCurrentId := guessCurrentId st + 1,
             guesses := Map_set (guessCurrentId st) guess (guesses st)\<rparr>))"
  using assms by (simp add: postGuess_def parseInsertGuess_def createGuess_def Let_def)

text \<open>Only such a request is answered with a guess; every other reply is an error.\<close>

lemma postGuess_reply_guess:
  assumes "postGuess toLowerCase st now req = (GuessReply code guess name, st')"
  shows "\<exists>guesserId targetId guessedName c targetUser.
           rq_user req = Some guesserId \<and> rq_targetId req = Some targetId
         \<and> rq_guessedName req = Some guessedName \<and> rq_correct req = Some c
         \<and> getUser st targetId = Some targetUser"
proof -
  from assms obtain guesserId where u: "rq_user req = Some guesserId"
    by (cases "rq_user req") (auto simp: postGuess_def)
  from assms u obtain parsed where p: "parseInsertGuess req guesserId = Some parsed"
    by (cases "parseInsertGuess req guesserId") (auto simp: postGuess_def)
  from p obtain targetId guessedName c where
    f: "rq_targetId req = Some targetId" "rq_guessedName req = Some guessedName"
       "rq_correct req = Some c"
    by (auto simp: parseInsertGuess_def split: option.splits)
  from assms u p f obtain targetUser where t: "getUser st targetId = Some targetUser"
    by (cases "getUser st targetId") (auto simp: postGuess_def parseInsertGuess_def)
  from u f t show ?thesis by blast
qed

text \<open>
  A body that lacks one of the fields \<open>insertGuessSchema\<close> requires is answered 400 and
  nothing is stored.
\<close>

lemma postGuess_invalid_body:
  assumes "rq_user req = Some guesserId"
    and "rq_targetId req = None \<or> rq_guessedName req = None \<or> rq_correct req = None"
  shows "postGuess toLowerCase st now req = (ErrorReply 400 ''Invalid data'', st)"
  using assms by (auto simp: postGuess_def parseInsertGuess_def split: option.splits)

text \<open>
  C1. Whenever the handler stores a guess (it then answers 201, and the target exists),
  the stored guess, found in the store under its id, carries the submitted name, and its
  \<open>correct\<close> is true if and only if the guessed name and the target's \<open>realName\<close> are
  equal after \<open>toLowerCase\<close>, whatever the runtime's \<open>toLowerCase\<close> is and whatever
  \<open>correct\<close> the body carried. For names in ASCII, where \<open>toLowerCase\<close> folds the
  letters A to Z, this is equality without regard to case, letter by letter; for a
  target named "Jane Doe" the guess "jane doe" is correct and "Jane Doethe" is not.
  Every authenticated request with a valid body for an existing target stores a guess.
\<close>

theorem guess_correct_iff_names_equal_ignoring_case:
  "(\<forall>code guess name st'.
      postGuess toLowerCase st now req = (GuessReply code guess name, st') \<longrightarrow>
      (\<exists>targetUser.
          code = 201
        \<and> getUser st (g_targetId guess) = Some targetUser
        \<and> rq_user req = Some (g_guesserId guess)
        \<and> rq_targetId req = Some (g_targetId guess)
        \<and> rq_guessedName req = Some (g_guessedName guess)
        \<and> Map_get (guesses st') (g_id guess) = Some guess
        \<and> (g_correct guess
             \<longleftrightarrow> toLowerCase (g_guessedName guess) = toLowerCase (u_realName targetUser))
        \<and> ((\<forall>s. isAscii s \<longrightarrow> toLowerCase s = asciiLowerCase s)
             \<and> isAscii (g_guessedName guess) \<and> isAscii (u_realName targetUser)
            \<longrightarrow> (g_correct guess
                   \<longleftrightarrow> equalIgnoringCase (g_guessedName guess) (u_realName targetUser)))
        \<and> ((\<forall>s. isAscii s \<longrightarrow> toLowerCase s = asciiLowerCase s)
             \<and> u_realName targetUser = ''Jane Doe''
            \<longrightarrow> (g_guessedName guess = ''jane doe'' \<longrightarrow> g_correct guess)
              \<and> (g_guessedName guess = ''Jane Doethe'' \<longrightarrow> \<not> g_correct guess))))
   \<and> (\<forall>guesserId targetId guessedName c targetUser.
        rq_user req = Some guesserId \<and> rq_targetId req = Some targetId
        \<and> rq_guessedName req = Some guessedName \<and> rq_correct req = Some c
        \<and> getUser st targetId = Some targetUser
        \<longrightarrow> (\<exists>guess name st'.
               postGuess toLowerCase st now req = (GuessReply 201 guess name, st')
             \<and> g_guesserId guess = guesserId \<and> g_targetId guess = targetId
             \<and> g_guessedName guess = guessedName))"
proof (intro conjI allI impI)
  fix code guess name st'
  assume reply: "postGuess toLowerCase st now req = (GuessReply code guess name, st')"
  from postGuess_reply_guess [OF reply] obtain guesserId targetId guessedName c targetUser
    where h: "rq_user req = Some guesserId" "rq_targetId req = Some targetId"
      "rq_guessedName req = Some guessedName" "rq_correct req = Some c"
      "getUser st targetId = Some targetUser"
    by blast
  let ?correct = "toLowerCase (u_realName targetUser) = toLowerCase guessedName"
  let ?guess = "\<lparr>g_id = guessCurrentId st, g_guesserId = guesserId, g_targetId = targetId,
                   g_guessedName = guessedName, g_correct = ?correct, g_timestamp = now\<rparr>"
  from reply have code: "code = 201" and guess: "guess = ?guess"
    and st': "st' = st\<lparr>guessCurrentId := guessCurrentId st + 1,
                       guesses := Map_set (guessCurrentId st) ?guess (guesses st)\<rparr>"
    unfolding postGuess_found [OF h] Let_def by auto
  have stored: "Map_get (guesses st') (g_id guess) = Some guess"
    by (simp add: guess st' Map_get_set_same)
  have corr: "g_correct guess
      \<longleftrightarrow> toLowerCase (g_guessedName guess) = toLowerCase (u_realName targetUser)"
    by (auto simp: guess)
  have ascii: "g_correct guess \<longleftrightarrow> equalIgnoringCase (g_guessedName guess) (u_realName targetUser)"
    if "\<forall>s. isAscii s \<longrightarrow> toLowerCase s = asciiLowerCase s"
      and "isAscii (g_guessedName guess)" and "isAscii (u_realName targetUser)"
    using that corr asciiLowerCase_eq_iff [of "g_guessedName guess" "u_realName targetUser"]
    by simp
  have jane: "(g_guessedName guess = ''jane doe'' \<longrightarrow> g_correct guess)
              \<and> (g_guessedName guess = ''Jane Doethe'' \<longrightarrow> \<not> g_correct guess)"
    if low: "\<forall>s. isAscii s \<longrightarrow> toLowerCase s = asciiLowerCase s"
      and name: "u_realName targetUser = ''Jane Doe''"
  proof (intro conjI impI)
    assume g: "g_guessedName guess = ''jane doe''"
    from ascii [OF low] g name jane_doe_ascii jane_doe_examples(1)
    show "g_correct guess" by simp
  next
    assume g: "g_guessedName guess = ''Jane Doethe''"
    from ascii [OF low] g name jane_doe_ascii jane_doe_examples(2)
    show "\<not> g_correct guess" by simp
  qed
  from h code stored corr ascii jane
  show "\<exists>targetUser.
          code = 201
        \<and> getUser st (g_targetId guess) = Some targetUser
        \<and> rq_user req = Some (g_guesserId guess)
        \<and> rq_targetId req = Some (g_targetId guess)
        \<and> rq_guessedName req = Some (g_guessedName guess)
        \<and> Map_get (guesses st') (g_id guess) = Some guess
        \<and> (g_correct guess
             \<longleftrightarrow> toLowerCase (g_guessedName guess) = toLowerCase (u_realName targetUser))
        \<and> ((\<forall>s. isAscii s \<longrightarrow> toLowerCase s = asciiLowerCase s)
             \<and> isAscii (g_guessedName guess) \<and> isAscii (u_realName targetUser)
            \<longrightarrow> (g_correct guess
                   \<longleftrightarrow> equalIgnoringCase (g_guessedName guess) (u_realName targetUser)))
        \<and> ((\<forall>s. isAscii s \<longrightarrow> toLowerCase s = asciiLowerCase s)
             \<and> u_realName targetUser = ''Jane Doe''
            \<longrightarrow> (g_guessedName guess = ''jane doe'' \<longrightarrow> g_correct guess)
              \<and> (g_guessedName guess = ''Jane Doethe'' \<longrightarrow> \<not> g_correct guess))"
    by (intro exI [of _ targetUser]) (simp add: guess)
next
  fix guesserId targetId guessedName c targetUser
  assume "rq_user req = Some guesserId \<and> rq_targetId req = Some targetId
        \<and> rq_guessedName req = Some guessedName \<and> rq_correct req = Some c
        \<and> getUser st targetId = Some targetUser"
  then have h: "rq_user req = Some guesserId" "rq_targetId req = Some targetId"
      "rq_guessedName req = Some guessedName" "rq_correct req = Some c"
      "getUser st targetId = Some targetUser"
    by simp_all
  show "\<exists>guess name st'.
               postGuess toLowerCase st now req = (GuessReply 201 guess name, st')
             \<and> g_guesserId guess = guesserId \<and> g_targetId guess = targetId
             \<and> g_guessedName guess = guessedName"
    unfolding postGuess_found [OF h] Let_def by simp
qed

text \<open>
  The example store with the ASCII folding for \<open>toLowerCase\<close>: user 2 guesses the name
  of user 1, "Jane Doe", once rightly and once wrongly.
\<close>

lemma demo_guess_fields:
  "rq_user (demoGuess n) = Some 2" "rq_targetId (demoGuess n) = Some 1"
  "rq_guessedName (demoGuess n) = Some n" "rq_correct (demoGuess n) = Some False"
  by (simp_all add: demoGuess_def)

lemma demo_postGuess_right:
  "postGuess asciiLowerCase (demoStore 10 20 30) 40 (demoGuess ''jane doe'')
     = (GuessReply 201
          \<lparr>g_id = 1, g_guesserId = 2, g_targetId = 1, g_guessedName = ''jane doe'',
           g_correct = True, g_timestamp = 40\<rparr> (Some ''Jane Doe''),
        snd (postGuess asciiLowerCase (demoStore 10 20 30) 40 (demoGuess ''jane doe'')))"
proof -
  have n: "guessCurrentId (demoStore 10 20 30) = 1" by (simp add: demo_defs)
  have e: "asciiLowerCase ''Jane Doe'' = asciiLowerCase ''jane doe''"
    using jane_doe_examples(1) asciiLowerCase_eq_iff [of "''jane doe''" "''Jane Doe''"]
    by simp
  show ?thesis
    unfolding postGuess_found [OF demo_guess_fields demo_users_get(3)]
    using n e by (simp add: Let_def)
qed

lemma demo_postGuess_wrong:
  "postGuess asciiLowerCase (demoStore 10 20 30) 40 (demoGuess ''Jane Doethe'')
     = (GuessReply 201
          \<lparr>g_id = 1, g_guesserId = 2, g_targetId = 1, g_guessedName = ''Jane Doethe'',
           g_correct = False, g_timestamp = 40\<rparr> None,
        snd (postGuess asciiLowerCase (demoStore 10 20 30) 40 (demoGuess ''Jane Doethe'')))"
proof -
  have n: "guessCurrentId (demoStore 10 20 30) = 1" by (simp add: demo_defs)
  have e: "asciiLowerCase ''Jane Doe'' \<noteq> asciiLowerCase ''Jane Doethe''"
    by (simp add: asciiLowerCase_def)
  show ?thesis
    unfolding postGuess_found [OF demo_guess_fields demo_users_get(3)]
    using n e by (simp add: Let_def)
qed

theorem guess_correct_iff_names_equal_ignoring_case_witness:
  "postGuess asciiLowerCase (demoStore 10 20 30) 40 (demoGuess ''jane doe'')
     = (GuessReply 201
          \<lparr>g_id = 1, g_guesserId = 2, g_targetId = 1, g_guessedName = ''jane doe'',
           g_correct = True, g_timestamp = 40\<rparr> (Some ''Jane Doe''),
        snd (postGuess asciiLowerCase (demoStore 10 20 30) 40 (demoGuess ''jane doe'')))
   \<and> isAscii ''jane doe'' \<and> isAscii ''Jane Doe''
   \<and> map_option u_realName (getUser (demoStore 10 20 30) 1) = Some ''Jane Doe''
   \<and> equalIgnoringCase ''jane doe'' ''Jane Doe''
   \<and> Map_get
        (guesses (snd (postGuess asciiLowerCase (demoStore 10 20 30) 40 (demoGuess ''jane doe''))))
        1
       = Some \<lparr>g_id = 1, g_guesserId = 2, g_targetId = 1, g_guessedName = ''jane doe'',
               g_correct = True, g_timestamp = 40\<rparr>
   \<and> rq_user (demoGuess ''jane doe'') = Some 2
   \<and> rq_targetId (demoGuess ''jane doe'') = Some 1
   \<and> rq_guessedName (demoGuess ''jane doe'') = Some ''jane doe''
   \<and> rq_correct (demoGuess ''jane doe'') = Some False
   \<and> (\<exists>guess name st'.
         postGuess asciiLowerCase (demoStore 10 20 30) 40 (demoGuess ''jane doe'')
           = (GuessReply 201 guess name, st')
       \<and> g_guessedName guess = ''jane doe'')"
proof -
  note t = guess_correct_iff_names_equal_ignoring_case
             [of asciiLowerCase "demoStore 10 20 30" 40 "demoGuess ''jane doe''"]
  note r = demo_postGuess_right
  note u = demo_users_get(3) [of 10 20 30]
  note f = demo_guess_fields [of "''jane doe''"]
  from t [THEN conjunct1, rule_format, OF r] obtain targetUser where
    a: "getUser (demoStore 10 20 30) 1 = Some targetUser
        \<and> Map_get
            (guesses (snd (postGuess asciiLowerCase (demoStore 10 20 30) 40
                             (demoGuess ''jane doe'')))) 1
           = Some \<lparr>g_id = 1, g_guesserId = 2, g_targetId = 1, g_guessedName = ''jane doe'',
                   g_correct = True, g_timestamp = 40\<rparr>
        \<and> (isAscii ''jane doe'' \<and> isAscii (u_realName targetUser)
            \<longrightarrow> equalIgnoringCase ''jane doe'' (u_realName targetUser))"
    by (elim exE) simp
  from a u have name: "u_realName targetUser = ''Jane Doe''" by auto
  from a name jane_doe_ascii have eq: "equalIgnoringCase ''jane doe'' ''Jane Doe''"
    by simp
  have ex: "\<exists>guess name st'.
         postGuess asciiLowerCase (demoStore 10 20 30) 40 (demoGuess ''jane doe'')
           = (GuessReply 201 guess name, st')
       \<and> g_guesserId guess = 2 \<and> g_targetId guess = 1
       \<and> g_guessedName guess = ''jane doe''"
    by (rule t [THEN conjunct2, rule_format])
       (rule conjI, rule f(1), rule conjI, rule f(2), rule conjI, rule f(3),
        rule conjI, rule f(4), rule u)
  then have ex': "\<exists>guess name st'.
         postGuess asciiLowerCase (demoStore 10 20 30) 40 (demoGuess ''jane doe'')
           = (GuessReply 201 guess name, st')
       \<and> g_guessedName guess = ''jane doe''"
    by (elim exE conjE) (intro exI conjI)
  from a have stored: "Map_get
            (guesses (snd (postGuess asciiLowerCase (demoStore 10 20 30) 40
                             (demoGuess ''jane doe'')))) 1
           = Some \<lparr>g_id = 1, g_guesserId = 2, g_targetId = 1, g_guessedName = ''jane doe'',
                   g_correct = True, g_timestamp = 40\<rparr>"
    by simp
  have name1: "map_option u_realName (getUser (demoStore 10 20 30) 1) = Some ''Jane Doe''"
    by (simp add: u)
  show ?thesis
    by (intro conjI r stored eq ex' name1 jane_doe_ascii f)
qed

text \<open>
  C2. Every reply of \<open>POST /api/guess\<close> that carries a guess has status 201, and its body
  has \<open>targetRealName\<close> if and only if the guess is correct: an incorrect guess has none,
  a correct one has the \<open>realName\<close> of its target. Correct is what the handler computed:
  the two names are equal after \<open>toLowerCase\<close>, whatever the runtime's \<open>toLowerCase\<close> is.
\<close>

theorem targetRealName_present_iff_correct:
  assumes "postGuess toLowerCase st now req = (GuessReply code guess name, st')"
  shows "code = 201
       \<and> (name \<noteq> None \<longleftrightarrow> g_correct guess)
       \<and> (\<exists>targetUser. getUser st (g_targetId guess) = Some targetUser
             \<and> (g_correct guess \<longrightarrow> name = Some (u_realName targetUser))
             \<and> (g_correct guess
                  \<longleftrightarrow> toLowerCase (u_realName targetUser)
                        = toLowerCase (g_guessedName guess)))"
proof -
  from postGuess_reply_guess [OF assms] obtain guesserId targetId guessedName c targetUser
    where h: "rq_user req = Some guesserId" "rq_targetId req = Some targetId"
      "rq_guessedName req = Some guessedName" "rq_correct req = Some c"
      "getUser st targetId = Some targetUser"
    by blast
  from assms show ?thesis
    unfolding postGuess_found [OF h] Let_def
    using h(5) by (auto split: if_splits)
qed

theorem targetRealName_present_iff_correct_witness:
  "(\<exists>guess st'.
      postGuess asciiLowerCase (demoStore 10 20 30) 40 (demoGuess ''Jane Doethe'')
        = (GuessReply 201 guess None, st')
      \<and> \<not> g_correct guess)
   \<and> (\<exists>guess st'.
      postGuess asciiLowerCase (demoStore 10 20 30) 40 (demoGuess ''jane doe'')
        = (GuessReply 201 guess (Some ''Jane Doe''), st')
      \<and> g_correct guess
      \<and> map_option u_realName (getUser (demoStore 10 20 30) (g_targetId guess))
          = Some ''Jane Doe'')"
proof -
  note w = targetRealName_present_iff_correct [OF demo_postGuess_wrong]
  note r = targetRealName_present_iff_correct [OF demo_postGuess_right]
  from w have 1: "\<not> g_correct
          \<lparr>g_id = 1, g_guesserId = 2, g_targetId = 1, g_guessedName = ''Jane Doethe'',
           g_correct = False, g_timestamp = 40\<rparr>"
    by simp
  from r have 2: "g_correct
          \<lparr>g_id = 1, g_guesserId = 2, g_targetId = 1, g_guessedName = ''jane doe'',
           g_correct = True, g_timestamp = 40\<rparr>"
    by simp
  from r have 3: "map_option u_realName
        (getUser (demoStore 10 20 30)
          (g_targetId \<lparr>g_id = 1, g_guesserId = 2, g_targetId = 1,
             g_guessedName = ''jane doe'', g_correct = True, g_timestamp = 40\<rparr>))
      = Some ''Jane Doe''"
    by auto
  have a: "\<exists>guess st'.
      postGuess asciiLowerCase (demoStore 10 20 30) 40 (demoGuess ''Jane Doethe'')
        = (GuessReply 201 guess None, st')
      \<and> \<not> g_correct guess"
    by (intro exI conjI) (rule demo_postGuess_wrong, rule 1)
  have b: "\<exists>guess st'.
      postGuess asciiLowerCase (demoStore 10 20 30) 40 (demoGuess ''jane doe'')
        = (GuessReply 201 guess (Some ''Jane Doe''), st')
      \<and> g_correct guess
      \<and> map_option u_realName (getUser (demoStore 10 20 30) (g_targetId guess))
          = Some ''Jane Doe''"
    by (intro exI conjI) (rule demo_postGuess_right, rule 2, rule 3)
  from a b show ?thesis by (rule conjI)
qed

end
